theory Spec2Isabelle
  imports Complex_Main "HOL-Library.Product_Lexorder"
begin

section \<open>The baseline store (examples/baseline\_rag.py)\<close>

text \<open>
  An embedding is a NumPy vector of floats; it is modelled by the list of its components,
  with floats idealised as reals. A memory is the dictionary that \<open>add_memory\<close> builds.
  The key \<open>flagged\<close> is absent from that dictionary until \<open>flag_memory\<close> writes it, so
  the field is optional (\<open>None\<close> is the absent key). The metadata is a dictionary that no
  operation looks into; its values are kept as strings. What the methods print is left
  out.
\<close>

type_synonym vec = "real list"

text \<open>
  The exceptions of the two files. \<open>RequestException\<close> stands for
  \<open>requests.exceptions.RequestException\<close> and its subclasses. \<open>NotFoundError\<close> is the
  spec's name; no code of the repository raises it.
\<close>

datatype error = ValueError | TypeError | IndexError | AttributeError | RequestException | NotFoundError

record memory =
  memory_id :: string
  content :: string
  metadata :: "(string \<times> string) list"
  embedding :: vec
  trust_weight :: real
  flagged :: "bool option"

text \<open>
  A query result is a copy of the memory's dictionary with the key \<open>embedding\<close> popped and
  the key \<open>relevance\<close> added.
\<close>

record result =
  res_memory_id :: string
  res_content :: string
  res_metadata :: "(string \<times> string) list"
  res_trust_weight :: real
  res_flagged :: "bool option"
  relevance :: real

text \<open>
  The object's state: the list \<open>self.memories\<close> and the matrix \<open>self.embeddings\<close>, which is
  \<open>None\<close> until the first memory is added and is kept here as the list of its rows.
\<close>

record rag =
  memories :: "memory list"
  embeddings :: "vec list option"

definition init :: rag where
  "init = \<lparr>memories = [], embeddings = None\<rparr>"

subsection \<open>The two library calls on vectors\<close>

text \<open>The inner product of two vectors of one length.\<close>

definition dot :: "vec \<Rightarrow> vec \<Rightarrow> real" where
  "dot u v = sum_list (map2 (*) u v)"

text \<open>
  \<open>np.vstack([M, e])\<close> appends the row \<open>e\<close> to the matrix \<open>M\<close> and raises ValueError when the
  row's length is not the matrix's row length.
\<close>

definition vstack :: "vec list \<Rightarrow> vec \<Rightarrow> error + vec list" where
  "vstack M e = (if list_all (\<lambda>row. length row = length e) M then Inr (M @ [e]) else Inl ValueError)"

text \<open>
  \<open>np.dot(self.embeddings, q)\<close>: one inner product per row. On \<open>None\<close> it raises TypeError,
  on a row length other than the length of \<open>q\<close> it raises ValueError.
\<close>

definition np_dot :: "vec list option \<Rightarrow> vec \<Rightarrow> error + real list" where
  "np_dot E q =
     (case E of
        None \<Rightarrow> Inl TypeError
      | Some M \<Rightarrow>
          if list_all (\<lambda>row. length row = length q) M then Inr (map (\<lambda>row. dot row q) M)
          else Inl ValueError)"

text \<open>Python's slice \<open>xs[:k]\<close>: a negative \<open>k\<close> counts from the end of the list.\<close>

definition slice_to :: "int \<Rightarrow> 'a list \<Rightarrow> 'a list" where
  "slice_to k xs = (if k < 0 then take (nat (int (length xs) + k)) xs else take (nat k) xs)"

subsection \<open>add\_memory\<close>

text \<open>
  The embedder (\<open>self.embedder.encode(_, normalize_embeddings=True)\<close>) is the parameter
  \<open>encode\<close>. The memory is appended to \<open>self.memories\<close> before the matrix is updated, so an
  exception of \<open>np.vstack\<close> leaves the appended memory behind: the operation returns its
  outcome together with the state it leaves.
\<close>

definition new_memory :: "(string \<Rightarrow> vec) \<Rightarrow> string \<Rightarrow> string \<Rightarrow> (string \<times> string) list option \<Rightarrow> memory" where
  "new_memory encode mid c md =
     \<lparr>memory_id = mid, content = c, metadata = (case md of None \<Rightarrow> [] | Some kv \<Rightarrow> kv),
      embedding = encode c, trust_weight = 1, flagged = None\<rparr>"

definition add_memory ::
  "(string \<Rightarrow> vec) \<Rightarrow> string \<Rightarrow> string \<Rightarrow> (string \<times> string) list option \<Rightarrow> rag \<Rightarrow> (error + unit) \<times> rag" where
  "add_memory encode mid c md st =
     (let m = new_memory encode mid c md;
          st1 = st\<lparr>memories := memories st @ [m]\<rparr>
      in case embeddings st1 of
           None \<Rightarrow> (Inr (), st1\<lparr>embeddings := Some [embedding m]\<rparr>)
         | Some M \<Rightarrow>
             (case vstack M (embedding m) of
                Inl e \<Rightarrow> (Inl e, st1)
              | Inr M' \<Rightarrow> (Inr (), st1\<lparr>embeddings := Some M'\<rparr>)))"

subsection \<open>flag\_memory\<close>

text \<open>
  The loop over \<open>self.memories\<close> stops at the first memory with the id; \<open>None\<close> is the loop
  running off the end of the list (the "Memory not found" message).
\<close>

fun flag_first :: "string \<Rightarrow> memory list \<Rightarrow> memory list option" where
  "flag_first mid [] = None"
| "flag_first mid (m # ms) =
     (if memory_id m = mid then Some (m\<lparr>trust_weight := 0, flagged := Some True\<rparr> # ms)
      else map_option ((#) m) (flag_first mid ms))"

definition flag_memory :: "string \<Rightarrow> string option \<Rightarrow> rag \<Rightarrow> (error + unit) \<times> rag" where
  "flag_memory mid reason st =
     (case flag_first mid (memories st) of
        Some ms \<Rightarrow> (Inr (), st\<lparr>memories := ms\<rparr>)
      | None \<Rightarrow> (Inr (), st))"

subsection \<open>query\<close>

definition to_result :: "memory \<Rightarrow> real \<Rightarrow> result" where
  "to_result m s =
     \<lparr>res_memory_id = memory_id m, res_content = content m, res_metadata = metadata m,
      res_trust_weight = trust_weight m, res_flagged = flagged m, relevance = s\<rparr>"

text \<open>
  The loop over \<open>top_indices\<close>; \<open>self.memories[idx]\<close> and \<open>similarities[idx]\<close> raise
  IndexError out of range.
\<close>

fun collect :: "memory list \<Rightarrow> real list \<Rightarrow> nat list \<Rightarrow> error + result list" where
  "collect ms sims [] = Inr []"
| "collect ms sims (idx # rest) =
     (if idx < length ms \<and> idx < length sims then
        (case collect ms sims rest of
           Inl e \<Rightarrow> Inl e
         | Inr rs \<Rightarrow> Inr (to_result (ms ! idx) (sims ! idx) # rs))
      else Inl IndexError)"

text \<open>
  \<open>np.argsort\<close> is a parameter \<open>argsort\<close>: NumPy's default sort kind is not stable, so the
  order it gives to equal keys is not fixed by its documentation. Its contract is
  \<open>argsort_ok\<close> below; \<open>stable_argsort\<close> is the instance that keeps equal keys in index
  order.
\<close>

definition query ::
  "(real list \<Rightarrow> nat list) \<Rightarrow> (string \<Rightarrow> vec) \<Rightarrow> rag \<Rightarrow> string \<Rightarrow> int \<Rightarrow> error + result list" where
  "query argsort encode st query_text n_results =
     (if memories st = [] then Inr []
      else
        let query_embedding = encode query_text in
        case np_dot (embeddings st) query_embedding of
          Inl e \<Rightarrow> Inl e
        | Inr similarities \<Rightarrow>
            let top_indices = slice_to n_results (rev (argsort similarities))
            in collect (memories st) similarities top_indices)"

definition argsort_ok :: "(real list \<Rightarrow> nat list) \<Rightarrow> bool" where
  "argsort_ok argsort \<longleftrightarrow>
     (\<forall>xs. distinct (argsort xs) \<and> set (argsort xs) = {..<length xs} \<and>
           sorted (map (\<lambda>i. xs ! i) (argsort xs)))"

definition stable_argsort :: "real list \<Rightarrow> nat list" where
  "stable_argsort xs = sort_key (\<lambda>i. xs ! i) [0..<length xs]"

text \<open>
  The argsort that returns the permutation \<open>perm\<close> for the keys \<open>keys\<close> and is the stable one
  on every other input.
\<close>

definition argsort_at :: "real list \<Rightarrow> nat list \<Rightarrow> real list \<Rightarrow> nat list" where
  "argsort_at keys perm xs = (if xs = keys then perm else stable_argsort xs)"

text \<open>The contract of the embedder: every text is mapped to a vector of one fixed length.\<close>

definition embedder_ok :: "(string \<Rightarrow> vec) \<Rightarrow> nat \<Rightarrow> bool" where
  "embedder_ok encode d \<longleftrightarrow> (\<forall>s. length (encode s) = d)"

subsection \<open>Sequences of operations\<close>

datatype op =
    Add string string "(string \<times> string) list option"
  | Flag string "string option"
  | Query string int

text \<open>
  A caller may go on after an exception, so a step keeps the state the operation leaves and
  drops its outcome. \<open>query\<close> only reads the object.
\<close>

fun step :: "(string \<Rightarrow> vec) \<Rightarrow> op \<Rightarrow> rag \<Rightarrow> rag" where
  "step encode (Add mid c md) st = snd (add_memory encode mid c md st)"
| "step encode (Flag mid reason) st = snd (flag_memory mid reason st)"
| "step encode (Query q k) st = st"

definition run :: "(string \<Rightarrow> vec) \<Rightarrow> op list \<Rightarrow> rag \<Rightarrow> rag" where
  "run encode ops st = fold (step encode) ops st"

text \<open>What a caller of \<open>query\<close> reads of the ranking: the ids in order, each with its score.\<close>

definition ranking :: "error + result list \<Rightarrow> error + (string \<times> real) list" where
  "ranking out = map_sum id (map (\<lambda>r. (res_memory_id r, relevance r))) out"

section \<open>The client of the remote service (examples/with\_memorygate.py)\<close>

text \<open>
  A parsed JSON body. An object is the Python dictionary \<open>response.json()\<close> returns, kept
  as the list of its items (the keys are distinct).
\<close>

datatype json =
    JNull
  | JBool bool
  | JNum real
  | JStr string
  | JArr "json list"
  | JObj "(string \<times> json) list"












section \<open>Notions the claims are stated with\<close>

text \<open>
  The position \<open>flag_memory\<close>'s loop stops at (the first memory with the id, or the length
  of the list when there is none), and what it writes there.
\<close>

definition first_pos :: "string \<Rightarrow> memory list \<Rightarrow> nat" where
  "first_pos mid ms = length (takeWhile (\<lambda>m. memory_id m \<noteq> mid) ms)"

definition flag_entry :: "memory \<Rightarrow> memory" where
  "flag_entry m = m\<lparr>trust_weight := 0, flagged := Some True\<rparr>"

text \<open>The memory at position \<open>i\<close> has the id \<open>mid\<close> and carries the flag.\<close>

definition flagged_at :: "nat \<Rightarrow> string \<Rightarrow> rag \<Rightarrow> bool" where
  "flagged_at i mid st \<longleftrightarrow>
     i < length (memories st) \<and> memory_id (memories st ! i) = mid \<and> flagged (memories st ! i) = Some True"

text \<open>
  The matrix has one row per memory, and row \<open>i\<close> is the embedding stored in memory \<open>i\<close>
  (the matrix is \<open>None\<close> exactly while no memory is stored).
\<close>

definition aligned :: "rag \<Rightarrow> bool" where
  "aligned st \<longleftrightarrow>
     embeddings st = (if memories st = [] then None else Some (map embedding (memories st)))"

text \<open>Aligned, and every memory stores the embedding of its own content.\<close>

definition store_ok :: "(string \<Rightarrow> vec) \<Rightarrow> rag \<Rightarrow> bool" where
  "store_ok encode st \<longleftrightarrow>
     aligned st \<and> list_all (\<lambda>m. embedding m = encode (content m)) (memories st)"

text \<open>
  The similarity of every stored memory to a query text, in insertion order: the inner
  product of the memory's stored embedding with the embedding of the query.
\<close>

definition sims_of :: "(string \<Rightarrow> vec) \<Rightarrow> rag \<Rightarrow> string \<Rightarrow> real list" where
  "sims_of encode st q = map (\<lambda>m. dot (embedding m) (encode q)) (memories st)"

text \<open>
  The result for the memory at index \<open>i\<close>: that memory's fields, with the similarity
  computed from that memory's embedding as relevance.
\<close>

definition result_at :: "(string \<Rightarrow> vec) \<Rightarrow> rag \<Rightarrow> string \<Rightarrow> nat \<Rightarrow> result" where
  "result_at encode st q i =
     to_result (memories st ! i) (dot (embedding (memories st ! i)) (encode q))"

text \<open>
  The search of the spec's embedding index, in its words: the \<open>k\<close> indices of highest
  similarity, by descending similarity, among equal similarities the larger index (the
  memory inserted later) first.
\<close>

definition spec_search :: "real list \<Rightarrow> nat \<Rightarrow> nat list" where
  "spec_search sims k = take k (rev (sort_key (\<lambda>i. (sims ! i, i)) [0..<length sims]))"

text \<open>Cosine similarity, and the embedder returning vectors of norm 1.\<close>

definition cosine :: "vec \<Rightarrow> vec \<Rightarrow> real" where
  "cosine u v = dot u v / (sqrt (dot u u) * sqrt (dot v v))"

definition normalizing :: "(string \<Rightarrow> vec) \<Rightarrow> bool" where
  "normalizing encode \<longleftrightarrow> (\<forall>s. dot (encode s) (encode s) = 1)"

text \<open>A concrete embedder and store for the closed instances below.\<close>

definition embed0 :: "string \<Rightarrow> vec" where
  "embed0 s = (if s = ''a'' then [1, 0] else if s = ''b'' then [0, 1] else [3 / 5, 4 / 5])"

definition store3 :: rag where
  "store3 = run embed0 [Add ''m1'' ''a'' None, Add ''m2'' ''b'' None, Add ''m3'' ''c'' None] init"

text \<open>A store of two pairs of memories with equal content.\<close>

definition store_pairs :: rag where
  "store_pairs =
     run embed0 [Add ''m1'' ''a'' None, Add ''m2'' ''a'' None, Add ''m3'' ''b'' None, Add ''m4'' ''b'' None] init"

text \<open>A store in which the first and the third memory have the same content.\<close>

definition store_tie :: rag where
  "store_tie = run embed0 [Add ''m1'' ''a'' None, Add ''m2'' ''b'' None, Add ''m3'' ''a'' None] init"

section \<open>Helper lemmas\<close>

lemma flag_first_length: "flag_first mid ms = Some ms' \<Longrightarrow> length ms' = length ms"
  by (induction ms arbitrary: ms') (auto split: if_splits)

lemma flag_first_ids: "flag_first mid ms = Some ms' \<Longrightarrow> map memory_id ms' = map memory_id ms"
  by (induction ms arbitrary: ms') (auto split: if_splits)

lemma flag_first_Nil: "flag_first mid ms = Some ms' \<Longrightarrow> ms' = [] \<longleftrightarrow> ms = []"
  by (cases ms) (auto split: if_splits)

lemma collect_ranking_cong:
  assumes "map memory_id ms' = map memory_id ms"
  shows "ranking (collect ms' sims idxs) = ranking (collect ms sims idxs)"
proof -
  have len: "length ms' = length ms"
    using assms by (metis length_map)
  have ids: "memory_id (ms' ! i) = memory_id (ms ! i)" if "i < length ms" for i
    using assms that len by (metis nth_map)
  show ?thesis
  proof (induction idxs)
    case Nil
    show ?case by (simp add: ranking_def)
  next
    case (Cons idx rest)
    then show ?case
      using len ids [of idx]
      by (auto simp: ranking_def to_result_def split: sum.splits)
  qed
qed

lemma flag_memory_ranking:
  "ranking (query argsort encode (snd (flag_memory mid reason st)) q k) = ranking (query argsort encode st q k)"
proof (cases "flag_first mid (memories st)")
  case None
  then show ?thesis by (simp add: flag_memory_def)
next
  case (Some ms')
  have ids: "map memory_id ms' = map memory_id (memories st)"
    using Some by (rule flag_first_ids)
  have nil: "ms' = [] \<longleftrightarrow> memories st = []"
    using Some by (rule flag_first_Nil)
  show ?thesis
    using Some nil collect_ranking_cong [OF ids]
    by (auto simp: flag_memory_def query_def Let_def split: sum.splits)
qed

lemma flag_first_eq:
  "flag_first mid ms =
     (if first_pos mid ms < length ms
      then Some (ms[first_pos mid ms := flag_entry (ms ! first_pos mid ms)])
      else None)"
  by (induction ms) (auto simp: first_pos_def flag_entry_def)

lemma first_pos_less: "mid \<in> memory_id ` set ms \<Longrightarrow> first_pos mid ms < length ms"
  by (induction ms) (auto simp: first_pos_def)

lemma first_pos_id: "first_pos mid ms < length ms \<Longrightarrow> memory_id (ms ! first_pos mid ms) = mid"
  by (induction ms) (auto simp: first_pos_def)

lemma first_pos_absent: "mid \<notin> memory_id ` set ms \<Longrightarrow> first_pos mid ms = length ms"
  by (induction ms) (auto simp: first_pos_def)

lemma add_memory_memories:
  "memories (snd (add_memory encode mid c md st)) = memories st @ [new_memory encode mid c md]"
  by (simp add: add_memory_def Let_def split: option.splits sum.splits)

lemma flag_memory_absent:
  "mid \<notin> memory_id ` set (memories st) \<Longrightarrow> flag_memory mid reason st = (Inr (), st)"
  by (simp add: flag_memory_def flag_first_eq first_pos_absent)

lemma flag_memory_present:
  "mid \<in> memory_id ` set (memories st) \<Longrightarrow>
   flag_memory mid reason st =
     (Inr (), st\<lparr>memories := (memories st)[first_pos mid (memories st) := flag_entry (memories st ! first_pos mid (memories st))]\<rparr>)"
  by (simp add: flag_memory_def flag_first_eq first_pos_less)

lemma flag_memory_embeddings: "embeddings (snd (flag_memory mid reason st)) = embeddings st"
  by (simp add: flag_memory_def split: option.splits)

lemma store3_memories:
  "memories store3 = [new_memory embed0 ''m1'' ''a'' None, new_memory embed0 ''m2'' ''b'' None, new_memory embed0 ''m3'' ''c'' None]"
  by (simp add: store3_def run_def add_memory_memories init_def)

lemma store3_embeddings:
  "embeddings store3 = Some [[1, 0], [0, 1], [3 / 5, 4 / 5]]"
  by (simp add: store3_def run_def add_memory_def init_def new_memory_def embed0_def vstack_def Let_def)

lemma trust_step:
  assumes "\<forall>m \<in> set (memories st). 0 \<le> trust_weight m \<and> trust_weight m \<le> 1"
  shows "\<forall>m \<in> set (memories (step encode x st)). 0 \<le> trust_weight m \<and> trust_weight m \<le> 1"
proof (cases x)
  case (Add mid c md)
  then show ?thesis
    using assms by (auto simp: add_memory_memories new_memory_def)
next
  case (Flag mid reason)
  show ?thesis
  proof (cases "mid \<in> memory_id ` set (memories st)")
    case True
    then show ?thesis
      using assms Flag
      by (auto simp: flag_memory_present flag_entry_def dest!: set_update_subset_insert [THEN subsetD])
  next
    case False
    then show ?thesis
      using assms Flag by (simp add: flag_memory_absent)
  qed
next
  case (Query q k)
  then show ?thesis using assms by simp
qed

lemma trust_run:
  "\<forall>m \<in> set (memories st). 0 \<le> trust_weight m \<and> trust_weight m \<le> 1 \<Longrightarrow>
   \<forall>m \<in> set (memories (run encode ops st)). 0 \<le> trust_weight m \<and> trust_weight m \<le> 1"
proof (induction ops arbitrary: st)
  case Nil
  then show ?case by (simp add: run_def)
next
  case (Cons x ops)
  have "\<forall>m \<in> set (memories (step encode x st)). 0 \<le> trust_weight m \<and> trust_weight m \<le> 1"
    using Cons.prems by (rule trust_step)
  then show ?case
    using Cons.IH [of "step encode x st"] by (simp add: run_def)
qed

lemma flagged_at_step:
  assumes "flagged_at i mid st"
  shows "flagged_at i mid (step encode x st)"
proof (cases x)
  case (Add mid' c md)
  then show ?thesis
    using assms by (simp add: flagged_at_def add_memory_memories nth_append)
next
  case (Flag mid' reason)
  show ?thesis
  proof (cases "mid' \<in> memory_id ` set (memories st)")
    case True
    have "flagged_at i mid (snd (flag_memory mid' reason st))"
      using assms
      by (cases "i = first_pos mid' (memories st)")
         (simp_all add: flagged_at_def flag_memory_present [OF True] flag_entry_def)
    then show ?thesis
      using Flag by simp
  next
    case False
    then show ?thesis
      using assms Flag by (simp add: flag_memory_absent)
  qed
next
  case (Query q k)
  then show ?thesis using assms by simp
qed

lemma flagged_at_run: "flagged_at i mid st \<Longrightarrow> flagged_at i mid (run encode ops st)"
proof (induction ops arbitrary: st)
  case Nil
  then show ?case by (simp add: run_def)
next
  case (Cons x ops)
  have "flagged_at i mid (step encode x st)"
    using Cons.prems by (rule flagged_at_step)
  then show ?case
    using Cons.IH [of "step encode x st"] by (simp add: run_def)
qed

lemma flagged_at_flag_memory:
  assumes "mid \<in> memory_id ` set (memories st)"
  shows "flagged_at (first_pos mid (memories st)) mid (snd (flag_memory mid reason st))"
  using first_pos_less [OF assms] assms
  by (simp add: flagged_at_def flag_memory_present flag_entry_def first_pos_id)





lemma store_ok_init: "store_ok encode init"
  by (simp add: store_ok_def aligned_def init_def)

lemma store_ok_add:
  assumes e: "embedder_ok encode d" and ok: "store_ok encode st"
  shows "add_memory encode mid c md st =
           (Inr (), \<lparr>memories = memories st @ [new_memory encode mid c md],
                     embeddings = Some (map embedding (memories st) @ [encode c])\<rparr>)"
proof -
  have len: "list_all (\<lambda>row. length row = length (encode c)) (map embedding (memories st))"
    using e ok by (auto simp: embedder_ok_def store_ok_def list_all_iff)
  show ?thesis
    using ok len
    by (cases "memories st = []")
       (simp_all add: add_memory_def Let_def store_ok_def aligned_def vstack_def new_memory_def)
qed

lemma map_embedding_flag: "map embedding (ms[i := flag_entry (ms ! i)]) = map embedding ms"
proof (cases "i < length ms")
  case True
  have "map embedding (ms[i := flag_entry (ms ! i)]) = (map embedding ms)[i := map embedding ms ! i]"
    using True by (simp add: map_update flag_entry_def)
  then show ?thesis by simp
next
  case False
  then show ?thesis by (simp add: list_update_beyond)
qed

lemma map_content_flag: "map content (ms[i := flag_entry (ms ! i)]) = map content ms"
proof (cases "i < length ms")
  case True
  have "map content (ms[i := flag_entry (ms ! i)]) = (map content ms)[i := map content ms ! i]"
    using True by (simp add: map_update flag_entry_def)
  then show ?thesis by simp
next
  case False
  then show ?thesis by (simp add: list_update_beyond)
qed

lemma own_embedding_maps:
  "list_all (\<lambda>m. embedding m = encode (content m)) ms \<longleftrightarrow> map embedding ms = map (encode \<circ> content) ms"
  by (induction ms) auto

lemma store_ok_flag:
  assumes ok: "store_ok encode st"
  shows "store_ok encode (snd (flag_memory mid reason st))"
proof (cases "mid \<in> memory_id ` set (memories st)")
  case True
  let ?ms = "(memories st)[first_pos mid (memories st) := flag_entry (memories st ! first_pos mid (memories st))]"
  have e: "map embedding ?ms = map embedding (memories st)"
    by (rule map_embedding_flag)
  have c: "map content ?ms = map content (memories st)"
    by (rule map_content_flag)
  have "map (encode \<circ> content) ?ms = map (encode \<circ> content) (memories st)"
    using c by (metis map_map)
  then have own: "list_all (\<lambda>m. embedding m = encode (content m)) ?ms"
    using ok e by (simp add: own_embedding_maps store_ok_def)
  show ?thesis
    using ok own e by (simp add: flag_memory_present [OF True] store_ok_def aligned_def)
next
  case False
  then show ?thesis
    using ok by (simp add: flag_memory_absent)
qed

lemma store_ok_step:
  assumes e: "embedder_ok encode d" and ok: "store_ok encode st"
  shows "store_ok encode (step encode x st)"
proof (cases x)
  case (Add mid c md)
  show ?thesis
    using ok by (simp add: Add store_ok_add [OF e ok] store_ok_def aligned_def new_memory_def)
next
  case (Flag mid reason)
  show ?thesis
    using ok by (simp add: Flag store_ok_flag)
next
  case (Query q k)
  then show ?thesis using ok by simp
qed

lemma store_ok_run:
  assumes e: "embedder_ok encode d"
  shows "store_ok encode st \<Longrightarrow> store_ok encode (run encode ops st)"
proof (induction ops arbitrary: st)
  case Nil
  then show ?case by (simp add: run_def)
next
  case (Cons x ops)
  have "store_ok encode (step encode x st)"
    using e Cons.prems by (rule store_ok_step)
  then show ?case
    using Cons.IH [of "step encode x st"] by (simp add: run_def)
qed

lemma collect_in_range:
  assumes "\<forall>i \<in> set idxs. i < length ms" and "length sims = length ms"
  shows "collect ms sims idxs = Inr (map (\<lambda>i. to_result (ms ! i) (sims ! i)) idxs)"
  using assms by (induction idxs) simp_all

lemma argsort_ok_range: "argsort_ok argsort \<Longrightarrow> i \<in> set (argsort xs) \<Longrightarrow> i < length xs"
  unfolding argsort_ok_def by blast

lemma set_slice_to: "set (slice_to k xs) \<subseteq> set xs"
  by (auto simp: slice_to_def dest: in_set_takeD)

lemma np_dot_store_ok:
  assumes e: "embedder_ok encode d" and ok: "store_ok encode st" and ne: "memories st \<noteq> []"
  shows "np_dot (embeddings st) (encode q) = Inr (sims_of encode st q)"
proof -
  have emb: "embeddings st = Some (map embedding (memories st))"
    using ok ne by (simp add: store_ok_def aligned_def)
  have own: "\<forall>m \<in> set (memories st). embedding m = encode (content m)"
    using ok by (simp add: store_ok_def list_all_iff)
  have len: "list_all (\<lambda>row. length row = length (encode q)) (map embedding (memories st))"
    using e own by (simp add: embedder_ok_def list_all_iff)
  show ?thesis
    using len own by (simp add: emb np_dot_def sims_of_def)
qed

lemma query_store_ok:
  assumes a: "argsort_ok argsort" and e: "embedder_ok encode d" and ok: "store_ok encode st"
  shows "query argsort encode st q k =
           Inr (map (result_at encode st q) (slice_to k (rev (argsort (sims_of encode st q)))))"
proof (cases "memories st = []")
  case True
  have "set (argsort (sims_of encode st q)) = {}"
    using a True by (simp add: argsort_ok_def sims_of_def)
  then have "argsort (sims_of encode st q) = []"
    by simp
  then show ?thesis
    using True by (simp add: query_def slice_to_def)
next
  case False
  let ?sims = "sims_of encode st q"
  let ?top = "slice_to k (rev (argsort ?sims))"
  have len: "length ?sims = length (memories st)"
    by (simp add: sims_of_def)
  have rng: "\<forall>i \<in> set ?top. i < length (memories st)"
    using set_slice_to [of k "rev (argsort ?sims)"] argsort_ok_range [OF a, of _ ?sims] len
    by auto
  have "collect (memories st) ?sims ?top = Inr (map (\<lambda>i. to_result (memories st ! i) (?sims ! i)) ?top)"
    using rng len by (rule collect_in_range)
  moreover have "map (\<lambda>i. to_result (memories st ! i) (?sims ! i)) ?top = map (result_at encode st q) ?top"
    using rng by (simp add: result_at_def sims_of_def)
  ultimately show ?thesis
    using False by (simp add: query_def np_dot_store_ok [OF e ok False] Let_def)
qed

lemma stable_argsort_ok: "argsort_ok stable_argsort"
  by (auto simp: argsort_ok_def stable_argsort_def)

lemma embed0_ok: "embedder_ok embed0 2"
  by (simp add: embedder_ok_def embed0_def)

lemma embed0_normalizing: "normalizing embed0"
  by (simp add: normalizing_def embed0_def dot_def)

lemma store3_ok: "store_ok embed0 store3"
  unfolding store3_def by (rule store_ok_run [OF embed0_ok store_ok_init])

lemma sims_store3: "sims_of embed0 store3 ''a'' = [1, 0, 3 / 5]"
  by (simp add: sims_of_def store3_memories new_memory_def embed0_def dot_def)

lemma argsort_store3: "stable_argsort [1, 0, 3 / 5] = [1, 2, 0]"
  by (simp add: stable_argsort_def upt_rec)

lemma length_argsort:
  assumes "argsort_ok argsort"
  shows "length (argsort xs) = length xs"
proof -
  have d: "distinct (argsort xs)" and s: "set (argsort xs) = {..<length xs}"
    using assms by (simp_all add: argsort_ok_def)
  have "card (set (argsort xs)) = length (argsort xs)"
    using d by (rule distinct_card)
  then show ?thesis
    by (simp add: s)
qed

lemma length_slice_to:
  "length (slice_to k xs) = (if k < 0 then nat (int (length xs) + k) else min (nat k) (length xs))"
  by (auto simp: slice_to_def)

lemma query_empty: "memories st = [] \<Longrightarrow> query argsort encode st q k = Inr []"
  by (simp add: query_def)

lemma length_query:
  assumes a: "argsort_ok argsort" and e: "embedder_ok encode d" and ok: "store_ok encode st"
  shows "map_sum id length (query argsort encode st q k) =
           Inr (if k < 0 then nat (int (length (memories st)) + k) else min (nat k) (length (memories st)))"
  by (simp add: query_store_ok [OF a e ok] length_slice_to length_argsort [OF a] sims_of_def)

lemma insort_key_lex:
  fixes f :: "nat \<Rightarrow> real"
  assumes "sorted (map (\<lambda>i. (f i, i)) ys)" and "\<forall>y \<in> set ys. x < y"
  shows "sorted (map (\<lambda>i. (f i, i)) (insort_key f x ys))"
  using assms
proof (induction ys)
  case Nil
  then show ?case by simp
next
  case (Cons y ys)
  show ?case
  proof (cases "f x \<le> f y")
    case True
    have "\<forall>z \<in> set (y # ys). (f x, x) \<le> (f z, z)"
      using Cons.prems True by (auto simp: less_eq_prod_def)
    then show ?thesis
      using Cons.prems True by simp
  next
    case False
    have "sorted (map (\<lambda>i. (f i, i)) (insort_key f x ys))"
      using Cons by simp
    moreover have "\<forall>z \<in> set (insort_key f x ys). (f y, y) \<le> (f z, z)"
      using Cons.prems False by (auto simp: set_insort_key less_eq_prod_def)
    ultimately show ?thesis
      using False by simp
  qed
qed

lemma sort_key_lex:
  fixes f :: "nat \<Rightarrow> real"
  shows "sorted xs \<Longrightarrow> distinct xs \<Longrightarrow> sorted (map (\<lambda>i. (f i, i)) (sort_key f xs))"
proof (induction xs)
  case Nil
  then show ?case by simp
next
  case (Cons x xs)
  have "\<forall>y \<in> set xs. x \<le> y \<and> x \<noteq> y"
    using Cons.prems by auto
  then have "\<forall>y \<in> set (sort_key f xs). x < y"
    by fastforce
  moreover have "sorted (map (\<lambda>i. (f i, i)) (sort_key f xs))"
    using Cons by simp
  ultimately show ?case
    by (simp add: insort_key_lex)
qed

lemma stable_argsort_lex:
  "stable_argsort xs = sort_key (\<lambda>i. (xs ! i, i)) [0..<length xs]"
proof -
  let ?g = "\<lambda>i. (xs ! i, i)"
  let ?l1 = "sort_key (\<lambda>i. xs ! i) [0..<length xs]"
  let ?l2 = "sort_key ?g [0..<length xs]"
  have inj: "inj_on ?g A" for A
    by (rule inj_onI) simp
  have s1: "sorted (map ?g ?l1)"
    by (rule sort_key_lex) simp_all
  have s2: "sorted (map ?g ?l2)"
    by (rule sorted_sort_key)
  have d1: "distinct (map ?g ?l1)"
    unfolding distinct_map using inj by simp
  have d2: "distinct (map ?g ?l2)"
    unfolding distinct_map using inj by simp
  have eq: "set (map ?g ?l1) = set (map ?g ?l2)"
    by simp
  have "map ?g ?l1 = map ?g ?l2"
    by (rule sorted_distinct_set_unique [OF s1 d1 s2 d2 eq])
  then have "?l1 = ?l2"
    using inj [of UNIV] by (simp add: inj_map_eq_map)
  then show ?thesis
    by (simp add: stable_argsort_def)
qed


lemma desc_take_rev:
  fixes f :: "nat \<Rightarrow> real"
  assumes "sorted (map f a)"
  shows "sorted_wrt (\<ge>) (map f (take m (rev a)))"
    and "\<forall>i \<in> set (take m (rev a)). \<forall>j \<in> set (drop m (rev a)). f j \<le> f i"
proof -
  have "sorted_wrt (\<ge>) (rev (map f a))"
    using assms by (simp add: sorted_wrt_rev)
  then have "sorted_wrt (\<ge>) (map f (take m (rev a) @ drop m (rev a)))"
    by (simp add: rev_map)
  then have *: "sorted_wrt (\<ge>) (map f (take m (rev a)) @ map f (drop m (rev a)))"
    by (simp only: map_append)
  show "sorted_wrt (\<ge>) (map f (take m (rev a)))"
    using * by (simp only: sorted_wrt_append) 
  show "\<forall>i \<in> set (take m (rev a)). \<forall>j \<in> set (drop m (rev a)). f j \<le> f i"
    using * by (simp only: sorted_wrt_append) auto
qed

lemma cosine_normalizing:
  "normalizing encode \<Longrightarrow> cosine (encode a) (encode b) = dot (encode a) (encode b)"
  by (simp add: cosine_def normalizing_def)

lemma store_ok_nth:
  "store_ok encode st \<Longrightarrow> i < length (memories st) \<Longrightarrow>
   embedding (memories st ! i) = encode (content (memories st ! i))"
  by (simp add: store_ok_def list_all_length)

lemma top_k_store_ok:
  assumes a: "argsort_ok argsort" and ok: "store_ok encode st"
  shows "let sims = sims_of encode st q; idxs = take m (rev (argsort sims)) in
     length idxs = min m (length (memories st)) \<and>
     distinct idxs \<and> set idxs \<subseteq> {..<length (memories st)} \<and>
     sorted_wrt (\<ge>) (map ((!) sims) idxs) \<and>
     (\<forall>j<length (memories st). j \<notin> set idxs \<longrightarrow> (\<forall>i \<in> set idxs. sims ! j \<le> sims ! i)) \<and>
     (\<forall>i \<in> set idxs.
        res_memory_id (result_at encode st q i) = memory_id (memories st ! i) \<and>
        relevance (result_at encode st q i) = sims ! i \<and>
        sims ! i = dot (embedding (memories st ! i)) (encode q) \<and>
        embedding (memories st ! i) = encode (content (memories st ! i))) \<and>
     (normalizing encode \<longrightarrow>
        (\<forall>i \<in> set idxs. relevance (result_at encode st q i) = cosine (embedding (memories st ! i)) (encode q))) \<and>
     (argsort sims = stable_argsort sims \<longrightarrow> idxs = spec_search sims m)"
proof -
  define sims where "sims = sims_of encode st q"
  define idxs where "idxs = take m (rev (argsort sims))"
  have n: "length sims = length (memories st)"
    by (simp add: sims_def sims_of_def)
  have d: "distinct (argsort sims)" and s: "set (argsort sims) = {..<length sims}"
    and srt: "sorted (map ((!) sims) (argsort sims))"
    using a by (simp_all add: argsort_ok_def)
  have len: "length idxs = min m (length (memories st))"
    by (simp add: idxs_def length_argsort [OF a] n)
  have dist: "distinct idxs"
    using d by (simp add: idxs_def)
  have sub: "set idxs \<subseteq> {..<length (memories st)}"
    using s n set_take_subset [of m "rev (argsort sims)"] by (simp add: idxs_def)
  have desc: "sorted_wrt (\<ge>) (map ((!) sims) idxs)"
    unfolding idxs_def using srt by (rule desc_take_rev(1))
  have cross: "\<forall>i \<in> set idxs. \<forall>j \<in> set (drop m (rev (argsort sims))). sims ! j \<le> sims ! i"
    unfolding idxs_def using srt by (rule desc_take_rev(2))
  have out: "j \<in> set (drop m (rev (argsort sims)))" if "j < length (memories st)" "j \<notin> set idxs" for j
  proof -
    have "set (take m (rev (argsort sims))) \<union> set (drop m (rev (argsort sims))) = set (rev (argsort sims))"
      by (simp only: set_append [symmetric] append_take_drop_id)
    moreover have "j \<in> set (rev (argsort sims))"
      using that(1) s n by simp
    ultimately show ?thesis
      using that(2) unfolding idxs_def by blast
  qed
  have top: "\<forall>j<length (memories st). j \<notin> set idxs \<longrightarrow> (\<forall>i \<in> set idxs. sims ! j \<le> sims ! i)"
    using cross out by blast
  have res: "res_memory_id (result_at encode st q i) = memory_id (memories st ! i) \<and>
        relevance (result_at encode st q i) = sims ! i \<and>
        sims ! i = dot (embedding (memories st ! i)) (encode q) \<and>
        embedding (memories st ! i) = encode (content (memories st ! i))" if "i \<in> set idxs" for i
  proof -
    have "i < length (memories st)"
      using that sub by auto
    then show ?thesis
      by (simp add: result_at_def to_result_def sims_def sims_of_def store_ok_nth [OF ok])
  qed
  have cos: "relevance (result_at encode st q i) = cosine (embedding (memories st ! i)) (encode q)"
    if "i \<in> set idxs" "normalizing encode" for i
  proof -
    have "i < length (memories st)"
      using that sub by auto
    then show ?thesis
      using that(2)
      by (simp add: result_at_def to_result_def store_ok_nth [OF ok] cosine_normalizing)
  qed
  have tie: "idxs = spec_search sims m" if "argsort sims = stable_argsort sims"
    by (simp add: idxs_def that spec_search_def stable_argsort_lex)
  show ?thesis
    unfolding Let_def sims_def [symmetric] idxs_def [symmetric]
    using len dist sub desc top res cos tie by blast
qed


lemma store_tie_memories:
  "memories store_tie = [new_memory embed0 ''m1'' ''a'' None, new_memory embed0 ''m2'' ''b'' None, new_memory embed0 ''m3'' ''a'' None]"
  by (simp add: store_tie_def run_def add_memory_memories init_def)

lemma sims_store_tie: "sims_of embed0 store_tie ''a'' = [1, 0, 1]"
  by (simp add: sims_of_def store_tie_memories new_memory_def embed0_def dot_def)

lemma argsort_store_tie: "stable_argsort [1, 0, 1] = [1, 0, 2]"
  by (simp add: stable_argsort_def upt_rec)

lemma argsort_at_ok:
  assumes "distinct perm" and "set perm = {..<length keys}" and "sorted (map ((!) keys) perm)"
  shows "argsort_ok (argsort_at keys perm)"
  unfolding argsort_ok_def argsort_at_def
  using assms stable_argsort_ok by (simp add: argsort_ok_def)

lemma argsort_pairs_ok: "argsort_ok (argsort_at [1, 1, 0, 0] [3, 2, 1, 0])"
  by (rule argsort_at_ok) (auto simp: nth_Cons')

lemma store_pairs_memories:
  "memories store_pairs =
     [new_memory embed0 ''m1'' ''a'' None, new_memory embed0 ''m2'' ''a'' None,
      new_memory embed0 ''m3'' ''b'' None, new_memory embed0 ''m4'' ''b'' None]"
  by (simp add: store_pairs_def run_def add_memory_memories init_def)

lemma store_pairs_ok: "store_ok embed0 store_pairs"
  unfolding store_pairs_def by (rule store_ok_run [OF embed0_ok store_ok_init])

lemma sims_store_pairs: "sims_of embed0 store_pairs ''a'' = [1, 1, 0, 0]"
  by (simp add: sims_of_def store_pairs_memories new_memory_def embed0_def dot_def)

lemma stable_argsort_pairs: "stable_argsort [1, 1, 0, 0] = [2, 3, 0, 1]"
  by (simp add: stable_argsort_def upt_rec)

lemma spec_search_stable: "spec_search sims k = take k (rev (stable_argsort sims))"
  by (simp add: spec_search_def stable_argsort_lex)

section \<open>Claims\<close>

text \<open>
  C1. Flagging is inert with respect to retrieval: for every store state, query text and
  \<open>n_results\<close>, and for every list of \<open>flag_memory\<close> calls made beforehand, \<open>query\<close> gives the
  same outcome as without them as far as the memory ids, their order and their relevance
  scores go (and raises the same exception where it raises).
\<close>

theorem C1_flagging_inert:
  "ranking (query argsort encode (fold (\<lambda>(mid, reason) s. snd (flag_memory mid reason s)) flags st) q k)
     = ranking (query argsort encode st q k)"
proof (induction flags arbitrary: st)
  case Nil
  show ?case by simp
next
  case (Cons f flags)
  obtain mid reason where f: "f = (mid, reason)" by (cases f)
  show ?case
    using Cons.IH [of "snd (flag_memory mid reason st)"]
    by (simp add: f flag_memory_ranking)
qed

text \<open>
  C2. The claim reads: a flag multiplies the current \<open>trust_weight\<close> by a decay factor in
  (0,1) and clamps at a floor, so that one flag on a memory of positive trust never gives
  exactly 0. \<open>flag_memory\<close> has no decay factor: a memory of trust 1 is at trust 0 after
  one flag.
\<close>

theorem C2_counterexample:
  "trust_weight (memories store3 ! 0) = 1 \<and>
   trust_weight (memories (snd (flag_memory ''m1'' None store3)) ! 0) = 0"
  by (simp add: store3_memories flag_memory_def new_memory_def)

text \<open>
  C2, as the code has it: when a memory with the id is stored, \<open>flag_memory\<close> writes the
  first one, sets its \<open>trust_weight\<close> to exactly 0 whatever it was and its \<open>flagged\<close> to
  True, and leaves every other memory as it was.
\<close>

theorem C2_flag_sets_trust_zero:
  assumes "mid \<in> memory_id ` set (memories st)"
  shows "first_pos mid (memories st) < length (memories st) \<and>
         memory_id (memories st ! first_pos mid (memories st)) = mid \<and>
         memories (snd (flag_memory mid reason st)) =
           (memories st)[first_pos mid (memories st) :=
              (memories st ! first_pos mid (memories st))\<lparr>trust_weight := 0, flagged := Some True\<rparr>] \<and>
         trust_weight (memories (snd (flag_memory mid reason st)) ! first_pos mid (memories st)) = 0"
  using assms first_pos_less [OF assms]
  by (simp add: flag_memory_present first_pos_id flag_entry_def)

theorem C2_witness:
  "first_pos ''m2'' (memories store3) = 1 \<and>
   trust_weight (memories (snd (flag_memory ''m2'' None store3)) ! 1) = 0"
proof -
  have h: "''m2'' \<in> memory_id ` set (memories store3)"
    by (simp add: store3_memories new_memory_def)
  have p: "first_pos ''m2'' (memories store3) = 1"
    by (simp add: store3_memories new_memory_def first_pos_def)
  show ?thesis
    using C2_flag_sets_trust_zero [OF h, of None] p by simp
qed

text \<open>
  C3. The claim reads: \<open>query\<close> breaks ties by most-recently-inserted first. The order
  of equal similarities is the one \<open>np.argsort\<close> gives them, and its default sort kind is
  not stable. On the store of the memories \<open>m1\<close>, \<open>m2\<close> (content \<open>a\<close>) and \<open>m3\<close>, \<open>m4\<close>
  (content \<open>b\<close>) the query \<open>a\<close> has the similarities \<open>[1, 1, 0, 0]\<close>, for which NumPy's
  default sort (its SIMD kernels) returns the sorting permutation \<open>[3, 2, 1, 0]\<close>: the two
  results for
  \<open>n_results = 2\<close> are \<open>m1\<close>, \<open>m2\<close>, the memory inserted first in front, where the search of
  the spec returns \<open>m2\<close>, \<open>m1\<close>.
\<close>

theorem C3_counterexample:
  "sims_of embed0 store_pairs ''a'' = [1, 1, 0, 0] \<and>
   argsort_ok (argsort_at [1, 1, 0, 0] [3, 2, 1, 0]) \<and>
   ranking (query (argsort_at [1, 1, 0, 0] [3, 2, 1, 0]) embed0 store_pairs ''a'' 2)
     = Inr [(''m1'', 1), (''m2'', 1)] \<and>
   map (\<lambda>i. (memory_id (memories store_pairs ! i), sims_of embed0 store_pairs ''a'' ! i))
     (spec_search (sims_of embed0 store_pairs ''a'') 2) = [(''m2'', 1), (''m1'', 1)]"
proof -
  have q: "query (argsort_at [1, 1, 0, 0] [3, 2, 1, 0]) embed0 store_pairs ''a'' 2 =
      Inr (map (result_at embed0 store_pairs ''a'')
             (slice_to 2 (rev (argsort_at [1, 1, 0, 0] [3, 2, 1, 0] (sims_of embed0 store_pairs ''a'')))))"
    by (rule query_store_ok [OF argsort_pairs_ok embed0_ok store_pairs_ok])
  have idxs: "slice_to 2 (rev (argsort_at [1, 1, 0, 0] [3, 2, 1, 0] (sims_of embed0 store_pairs ''a''))) = [0, 1]"
    by (simp add: sims_store_pairs argsort_at_def slice_to_def)
  have r: "ranking (query (argsort_at [1, 1, 0, 0] [3, 2, 1, 0]) embed0 store_pairs ''a'' 2)
          = Inr [(''m1'', 1), (''m2'', 1)]"
    unfolding q idxs
    by (simp add: ranking_def result_at_def to_result_def store_pairs_memories
        new_memory_def embed0_def dot_def)
  have sp: "map (\<lambda>i. (memory_id (memories store_pairs ! i), sims_of embed0 store_pairs ''a'' ! i))
     (spec_search (sims_of embed0 store_pairs ''a'') 2) = [(''m2'', 1), (''m1'', 1)]"
    by (simp add: spec_search_stable sims_store_pairs stable_argsort_pairs store_pairs_memories
        new_memory_def)
  show ?thesis
    by (intro conjI sims_store_pairs argsort_pairs_ok r sp)
qed

text \<open>
  C3, as the code has it: for a count \<open>k\<close> (\<open>k \<ge> 0\<close>), on every store reached from the
  new store, \<open>query\<close> returns the results of the first \<open>k\<close> indices of the reversed
  \<open>argsort\<close> of the similarities. These are \<open>min k n\<close> distinct stored memories, in
  descending order of similarity, and no memory left out is more similar than one
  returned. Each result carries the id of its memory and, as relevance, the inner product
  of that memory's embedding with the query's embedding, which is their cosine similarity
  when the embedder normalizes. Equal similarities come in the reverse of the order
  \<open>argsort\<close> gives them: where \<open>argsort\<close> keeps equal keys in index order, the indices
  are those of the spec's search, the memory inserted later first.
\<close>

theorem C3_query_top_k:
  assumes "argsort_ok argsort" and "embedder_ok encode d" and "0 \<le> k"
  shows "let st = run encode ops init; sims = sims_of encode st q; idxs = take (nat k) (rev (argsort sims)) in
     query argsort encode st q k = Inr (map (result_at encode st q) idxs) \<and>
     length idxs = min (nat k) (length (memories st)) \<and>
     distinct idxs \<and> set idxs \<subseteq> {..<length (memories st)} \<and>
     sorted_wrt (\<ge>) (map ((!) sims) idxs) \<and>
     (\<forall>j<length (memories st). j \<notin> set idxs \<longrightarrow> (\<forall>i \<in> set idxs. sims ! j \<le> sims ! i)) \<and>
     (\<forall>i \<in> set idxs.
        res_memory_id (result_at encode st q i) = memory_id (memories st ! i) \<and>
        relevance (result_at encode st q i) = sims ! i \<and>
        sims ! i = dot (embedding (memories st ! i)) (encode q) \<and>
        embedding (memories st ! i) = encode (content (memories st ! i))) \<and>
     (normalizing encode \<longrightarrow>
        (\<forall>i \<in> set idxs. relevance (result_at encode st q i) = cosine (embedding (memories st ! i)) (encode q))) \<and>
     (argsort sims = stable_argsort sims \<longrightarrow> idxs = spec_search sims (nat k))"
proof -
  have ok: "store_ok encode (run encode ops init)"
    using assms(2) store_ok_init by (rule store_ok_run)
  have q: "query argsort encode (run encode ops init) q k =
        Inr (map (result_at encode (run encode ops init) q)
               (take (nat k) (rev (argsort (sims_of encode (run encode ops init) q)))))"
    using assms(3) by (simp add: query_store_ok [OF assms(1,2) ok] slice_to_def)
  show ?thesis
    unfolding Let_def
    by (rule conjI [OF q top_k_store_ok [OF assms(1) ok, of q "nat k", unfolded Let_def]])
qed

theorem C3_witness:
  "ranking (query stable_argsort embed0 store_tie ''a'' 2) = Inr [(''m3'', 1), (''m1'', 1)] \<and>
   spec_search (sims_of embed0 store_tie ''a'') 2 = [2, 0] \<and>
   cosine (embedding (memories store_tie ! 2)) (embed0 ''a'') = 1"
proof -
  have st: "run embed0 [Add ''m1'' ''a'' None, Add ''m2'' ''b'' None, Add ''m3'' ''a'' None] init = store_tie"
    by (simp add: store_tie_def)
  have k: "(0::int) \<le> 2"
    by simp
  have idxs: "take (nat 2) (rev (stable_argsort (sims_of embed0 store_tie ''a''))) = [2, 0]"
    by (simp add: sims_store_tie argsort_store_tie)
  have r2: "result_at embed0 store_tie ''a'' 2 = to_result (new_memory embed0 ''m3'' ''a'' None) 1"
    and r0: "result_at embed0 store_tie ''a'' 0 = to_result (new_memory embed0 ''m1'' ''a'' None) 1"
    by (simp_all add: result_at_def store_tie_memories new_memory_def embed0_def dot_def)
  note T = C3_query_top_k [OF stable_argsort_ok embed0_ok k,
      of "[Add ''m1'' ''a'' None, Add ''m2'' ''b'' None, Add ''m3'' ''a'' None]" "''a''",
      unfolded Let_def st idxs]
  have c1: "query stable_argsort embed0 store_tie ''a'' 2 = Inr (map (result_at embed0 store_tie ''a'') [2, 0])"
    using T by blast
  have "[2, 0] = spec_search (sims_of embed0 store_tie ''a'') (nat 2)"
    using T by blast
  then have c2: "spec_search (sims_of embed0 store_tie ''a'') 2 = [2, 0]"
    by simp
  have "\<forall>i \<in> set [2, 0]. relevance (result_at embed0 store_tie ''a'' i) =
          cosine (embedding (memories store_tie ! i)) (embed0 ''a'')"
    using T embed0_normalizing by blast
  then have c3: "cosine (embedding (memories store_tie ! 2)) (embed0 ''a'') = 1"
    by (simp add: r2 to_result_def)
  show ?thesis
    using c1 c2 c3 by (simp add: ranking_def r2 r0 to_result_def new_memory_def)
qed

text \<open>
  C4. After every prefix of every sequence of \<open>add_memory\<close>, \<open>flag_memory\<close> and \<open>query\<close>
  calls on a new store, the \<open>trust_weight\<close> of every stored memory lies in [0, 1].
\<close>

theorem C4_trust_bounds:
  "\<forall>m \<in> set (memories (run encode (take n ops) init)). 0 \<le> trust_weight m \<and> trust_weight m \<le> 1"
  by (rule trust_run) (simp add: init_def)

theorem C4_witness:
  "list_all (\<lambda>m. 0 \<le> trust_weight m \<and> trust_weight m \<le> 1)
     (memories (run embed0 (take 2 [Add ''m1'' ''a'' None, Flag ''m1'' None, Add ''m2'' ''b'' None]) init)) \<and>
   map trust_weight
     (memories (run embed0 (take 2 [Add ''m1'' ''a'' None, Flag ''m1'' None, Add ''m2'' ''b'' None]) init)) = [0]"
proof -
  have "map trust_weight
     (memories (run embed0 (take 2 [Add ''m1'' ''a'' None, Flag ''m1'' None, Add ''m2'' ''b'' None]) init)) = [0]"
    by (simp add: run_def add_memory_memories init_def flag_memory_def new_memory_def)
  then show ?thesis
    using C4_trust_bounds [of embed0 2 "[Add ''m1'' ''a'' None, Flag ''m1'' None, Add ''m2'' ''b'' None]"]
    by (simp add: list_all_iff)
qed

text \<open>
  C5. The claim reads: ingesting an id that is already stored replaces the entry in place
  and keeps its trust, leaving one entry for the id. \<open>add_memory\<close> never looks the id up:
  after adding, flagging and adding \<open>m1\<close> again the store holds two entries for \<open>m1\<close>,
  the old one with its old content and trust 0, the new one with trust 1.
\<close>

theorem C5_counterexample:
  "map (\<lambda>m. (memory_id m, content m, trust_weight m))
     (memories (run embed0 [Add ''m1'' ''a'' None, Flag ''m1'' None, Add ''m1'' ''b'' None] init))
   = [(''m1'', ''a'', 0), (''m1'', ''b'', 1)]"
  by (simp add: run_def add_memory_memories init_def flag_memory_def new_memory_def)

text \<open>
  C5, as the code has it: \<open>add_memory\<close> appends a new entry (trust 1, no flag, the
  embedding of the new content) behind the entries already stored, which stay as they
  were; the number of entries with that id grows by one.
\<close>

theorem C5_add_memory_appends:
  "memories (snd (add_memory encode mid c md st)) =
     memories st @ [\<lparr>memory_id = mid, content = c, metadata = (case md of None \<Rightarrow> [] | Some kv \<Rightarrow> kv),
                      embedding = encode c, trust_weight = 1, flagged = None\<rparr>] \<and>
   length (filter (\<lambda>m. memory_id m = mid) (memories (snd (add_memory encode mid c md st)))) =
     Suc (length (filter (\<lambda>m. memory_id m = mid) (memories st)))"
  by (simp add: add_memory_memories new_memory_def)

text \<open>
  C6. The claim reads: a flag for an id that is not stored fails with NotFoundError.
  \<open>flag_memory\<close> returns normally there (it only prints a message).
\<close>

theorem C6_counterexample:
  "map memory_id (memories store3) = [''m1'', ''m2'', ''m3''] \<and>
   fst (flag_memory ''ghost'' None store3) = Inr () \<and>
   fst (flag_memory ''ghost'' None store3) \<noteq> Inl NotFoundError"
  by (simp add: store3_memories flag_memory_def new_memory_def)

text \<open>
  C6, as the code has it: \<open>flag_memory\<close> on an id that is not stored returns without an
  exception and leaves the whole store, so every stored memory, unchanged.
\<close>

theorem C6_flag_unknown_id:
  "mid \<notin> memory_id ` set (memories st) \<Longrightarrow> flag_memory mid reason st = (Inr (), st)"
  by (rule flag_memory_absent)

theorem C6_witness:
  "flag_memory ''ghost'' None store3 = (Inr (), store3)"
proof -
  have "''ghost'' \<notin> memory_id ` set (memories store3)"
    by (simp add: store3_memories new_memory_def)
  then show ?thesis by (rule C6_flag_unknown_id)
qed



text \<open>
  C8. On an empty store \<open>query\<close> returns the empty list for every \<open>k\<close>, without an
  exception. On a store of \<open>n\<close> memories reached from the new store it returns without an
  exception, and for a count \<open>k\<close> (\<open>k \<ge> 0\<close>) the number of results is \<open>min k n\<close>: exactly
  \<open>n\<close> when \<open>n < k\<close>, and never more than \<open>k\<close>. (\<open>n_results\<close> is a Python integer that
  goes to the slice \<open>[:n_results]\<close> as it is; a negative one leaves \<open>max (n + k) 0\<close>
  results.)
\<close>

theorem C8_result_count:
  assumes "argsort_ok argsort" and "embedder_ok encode d"
  shows "(memories st = [] \<longrightarrow> query argsort encode st q k = Inr []) \<and>
         (\<exists>rs. query argsort encode (run encode ops init) q k = Inr rs \<and>
            length rs = (if k < 0 then nat (int (length (memories (run encode ops init))) + k)
                         else min (nat k) (length (memories (run encode ops init)))) \<and>
            (int (length (memories (run encode ops init))) < k \<longrightarrow>
               length rs = length (memories (run encode ops init))) \<and>
            (0 \<le> k \<longrightarrow> int (length rs) \<le> k))"
proof -
  have ok: "store_ok encode (run encode ops init)"
    using assms(2) store_ok_init by (rule store_ok_run)
  obtain rs where rs: "query argsort encode (run encode ops init) q k = Inr rs"
    by (simp add: query_store_ok [OF assms ok])
  have "length rs = (if k < 0 then nat (int (length (memories (run encode ops init))) + k)
                         else min (nat k) (length (memories (run encode ops init))))"
    using length_query [OF assms ok, of q k] by (simp add: rs)
  then show ?thesis
    using rs by (auto simp: query_empty)
qed

theorem C8_witness:
  "query stable_argsort embed0 init ''a'' 2 = Inr [] \<and>
   map_sum id length (query stable_argsort embed0 store3 ''a'' 5) = Inr 3 \<and>
   map_sum id length (query stable_argsort embed0 store3 ''a'' 2) = Inr 2"
proof -
  have st: "run embed0 [Add ''m1'' ''a'' None, Add ''m2'' ''b'' None, Add ''m3'' ''c'' None] init = store3"
    by (simp add: store3_def)
  have n: "length (memories store3) = 3"
    by (simp add: store3_memories)
  have e: "memories init = []"
    by (simp add: init_def)
  show ?thesis
    using C8_result_count [OF stable_argsort_ok embed0_ok, of init "''a''" 2
            "[Add ''m1'' ''a'' None, Add ''m2'' ''b'' None, Add ''m3'' ''c'' None]"]
          C8_result_count [OF stable_argsort_ok embed0_ok, of init "''a''" 5
            "[Add ''m1'' ''a'' None, Add ''m2'' ''b'' None, Add ''m3'' ''c'' None]"]
    by (auto simp: st n e)
qed

text \<open>
  C9. Once \<open>flag_memory\<close> has been applied to a stored id, the memory it wrote (the first
  one with the id) keeps its position and its id, and its \<open>flagged\<close> field is True after
  every further sequence of \<open>add_memory\<close>, \<open>flag_memory\<close> and \<open>query\<close> calls.
\<close>

theorem C9_flagged_sticky:
  assumes "mid \<in> memory_id ` set (memories st)"
  shows "flagged_at (first_pos mid (memories st)) mid (run encode ops (snd (flag_memory mid reason st)))"
  by (rule flagged_at_run) (rule flagged_at_flag_memory [OF assms])

theorem C9_witness:
  "flagged_at 1 ''m2'' (run embed0 [Add ''m2'' ''c'' None, Flag ''m1'' None, Query ''a'' 2, Flag ''m2'' None]
      (snd (flag_memory ''m2'' None store3)))"
proof -
  have h: "''m2'' \<in> memory_id ` set (memories store3)"
    by (simp add: store3_memories new_memory_def)
  have p: "first_pos ''m2'' (memories store3) = 1"
    by (simp add: store3_memories new_memory_def first_pos_def)
  show ?thesis
    using C9_flagged_sticky [OF h, of embed0 "[Add ''m2'' ''c'' None, Flag ''m1'' None, Query ''a'' 2, Flag ''m2'' None]" None] p
    by simp
qed

text \<open>
  C10. With an embedder that returns vectors of one length: in every state reachable from
  the new store the matrix, once it exists, has one row per memory and row \<open>i\<close> is the
  embedding stored in memory \<open>i\<close>; every operation (\<open>add_memory\<close>, \<open>flag_memory\<close>,
  \<open>query\<close>) keeps this; and \<open>query\<close> returns, for each index it selects, the memory at
  that index together with the inner product computed from that memory's embedding.
\<close>

theorem C10_aligned:
  assumes "embedder_ok encode d"
  shows "aligned (run encode ops init) \<and>
         (\<forall>M. embeddings (run encode ops init) = Some M \<longrightarrow>
            length M = length (memories (run encode ops init)) \<and>
            (\<forall>i<length M. M ! i = embedding (memories (run encode ops init) ! i))) \<and>
         (store_ok encode st \<longrightarrow> aligned (step encode x st) \<and> store_ok encode (step encode x st)) \<and>
         (argsort_ok argsort \<longrightarrow>
            query argsort encode (run encode ops init) q k =
              Inr (map (result_at encode (run encode ops init) q)
                     (slice_to k (rev (argsort (sims_of encode (run encode ops init) q))))))"
proof -
  have ok: "store_ok encode (run encode ops init)"
    using assms store_ok_init by (rule store_ok_run)
  have "store_ok encode (step encode x st)" if "store_ok encode st"
    using assms that by (rule store_ok_step)
  moreover have "length M = length (memories (run encode ops init)) \<and>
      (\<forall>i<length M. M ! i = embedding (memories (run encode ops init) ! i))"
    if "embeddings (run encode ops init) = Some M" for M
    using ok that by (auto simp: store_ok_def aligned_def split: if_splits)
  ultimately show ?thesis
    using ok query_store_ok [OF _ assms ok] by (simp add: store_ok_def)
qed

theorem C10_witness:
  "aligned store3 \<and>
   embeddings store3 = Some [[1, 0], [0, 1], [3 / 5, 4 / 5]] \<and>
   map embedding (memories store3) = [[1, 0], [0, 1], [3 / 5, 4 / 5]] \<and>
   aligned (step embed0 (Add ''m4'' ''b'' None) store3) \<and>
   ranking (query stable_argsort embed0 store3 ''a'' 2) = Inr [(''m1'', 1), (''m3'', 3 / 5)]"
proof -
  have st: "run embed0 [Add ''m1'' ''a'' None, Add ''m2'' ''b'' None, Add ''m3'' ''c'' None] init = store3"
    by (simp add: store3_def)
  have "map (\<lambda>r. (res_memory_id r, relevance r))
          (map (result_at embed0 store3 ''a'') (slice_to 2 (rev (stable_argsort (sims_of embed0 store3 ''a'')))))
        = [(''m1'', 1), (''m3'', 3 / 5)]"
    by (simp add: sims_store3 argsort_store3 slice_to_def result_at_def to_result_def store3_memories
        new_memory_def embed0_def dot_def)
  then show ?thesis
    using C10_aligned [OF embed0_ok, of "[Add ''m1'' ''a'' None, Add ''m2'' ''b'' None, Add ''m3'' ''c'' None]"
        store3 "Add ''m4'' ''b'' None" stable_argsort "''a''" 2]
      store3_ok stable_argsort_ok
    by (simp add: st ranking_def store3_embeddings store3_memories new_memory_def embed0_def)
qed

end
